theory Spec2Isabelle
  imports Main
begin

section \<open>Python values, exceptions and the library functions the organizer calls\<close>

text \<open>
  The organizer (\<^verbatim>\<open>croo/croo.py\<close>) is Python. A Python \<^verbatim>\<open>str\<close> is modelled as a
  \<^typ>\<open>string\<close>, a tuple of scatter indices as an \<^typ>\<open>int list\<close>, a raised exception as
  the left injection of a sum, and a loop that may run forever as a function into
  \<^typ>\<open>'a option\<close> whose value \<^term>\<open>None\<close> means that the call never returns.
\<close>

datatype pyexn = IndexError | NameError string | OtherError string

text \<open>
  The values that an inline expression can evaluate to. \<open>PObj t\<close> is any other object
  (a module, a class, a function), known only by the text \<open>t\<close> that \<^verbatim>\<open>str\<close> prints for it.
\<close>

datatype pyval = PNone | PInt int | PStr string | PTuple "int list" | PObj string

fun digits_of :: "nat \<Rightarrow> string" where
  "digits_of n =
     (if n < 10 then [''0123456789'' ! n]
      else digits_of (n div 10) @ [''0123456789'' ! (n mod 10)])"

declare digits_of.simps [simp del]

definition str_int :: "int \<Rightarrow> string" where
  "str_int n = (if n < 0 then CHR ''-'' # digits_of (nat (- n)) else digits_of (nat n))"

fun join_comma :: "int list \<Rightarrow> string" where
  "join_comma [] = []"
| "join_comma [x] = str_int x"
| "join_comma (x # y # ys) = str_int x @ '', '' @ join_comma (y # ys)"

definition str_tuple :: "int list \<Rightarrow> string" where
  "str_tuple xs =
     (case xs of
        [] \<Rightarrow> ''()''
      | [x] \<Rightarrow> ''('' @ str_int x @ '',)''
      | _ \<Rightarrow> ''('' @ join_comma xs @ '')'')"

text \<open>Python's \<^verbatim>\<open>str(v)\<close>.\<close>

fun py_str :: "pyval \<Rightarrow> string" where
  "py_str PNone = ''None''"
| "py_str (PInt n) = str_int n"
| "py_str (PStr t) = t"
| "py_str (PTuple xs) = str_tuple xs"
| "py_str (PObj t) = t"

text \<open>
  \<^verbatim>\<open>shard_idx[n]\<close> on a tuple, for a non-negative literal \<open>n\<close>: an index past the end
  raises \<^verbatim>\<open>IndexError\<close>.
\<close>

definition tuple_get :: "int list \<Rightarrow> nat \<Rightarrow> pyexn + int" where
  "tuple_get xs n = (if n < length xs then Inr (xs ! n) else Inl IndexError)"

text \<open>
  \<^verbatim>\<open>os.path.basename\<close>, \<^verbatim>\<open>os.path.dirname\<close> and two-argument \<^verbatim>\<open>os.path.join\<close> of
  the POSIX flavour of the standard library: the path is cut after its last slash;
  \<^verbatim>\<open>dirname\<close> strips the trailing slashes of the head unless the head is slashes only;
  \<^verbatim>\<open>join\<close> drops its first argument when the second one is absolute.
\<close>

definition os_path_basename :: "string \<Rightarrow> string" where
  "os_path_basename p = rev (takeWhile (\<lambda>c. c \<noteq> CHR ''/'') (rev p))"

definition os_path_dirname :: "string \<Rightarrow> string" where
  "os_path_dirname p =
     (let head = rev (dropWhile (\<lambda>c. c \<noteq> CHR ''/'') (rev p)) in
      if head \<noteq> [] \<and> head \<noteq> replicate (length head) CHR ''/''
      then rev (dropWhile (\<lambda>c. c = CHR ''/'') (rev head))
      else head)"

definition os_path_join :: "string \<Rightarrow> string \<Rightarrow> string" where
  "os_path_join a b =
     (if b \<noteq> [] \<and> hd b = CHR ''/'' then b
      else if a = [] \<or> last a = CHR ''/'' then a @ b
      else a @ ''/'' @ b)"

text \<open>
  \<^verbatim>\<open>old.replace\<close> with count 1, as \<^verbatim>\<open>result.replace(old, new, 1)\<close>: the first
  occurrence of \<open>old\<close>, scanning from the left, is replaced by \<open>new\<close>.
\<close>

fun str_replace1 :: "string \<Rightarrow> string \<Rightarrow> string \<Rightarrow> string" where
  "str_replace1 old new [] = (if old = [] then new else [])"
| "str_replace1 old new (c # cs) =
     (if take (length old) (c # cs) = old then new @ drop (length old) (c # cs)
      else c # str_replace1 old new cs)"

section \<open>The inline-expression pattern\<close>

text \<open>
  \<^verbatim>\<open>RE_PATTERN_INLINE_EXP = r'\$\{(.*?)\}'\<close>. \<open>lazy_group\<close> is the part \<^verbatim>\<open>(.*?)\}\<close>
  tried right after a \<^verbatim>\<open>${\<close>: it takes characters up to the first closing brace, and fails
  at a line feed (which \<^verbatim>\<open>.\<close> does not match) or at the end of the text. It returns
  group 1 and the text after the match.
\<close>

fun lazy_group :: "string \<Rightarrow> (string \<times> string) option" where
  "lazy_group [] = None"
| "lazy_group (c # cs) =
     (if c = CHR ''}'' then Some ([], cs)
      else if c = CHR 0x0A then None
      else (case lazy_group cs of
              None \<Rightarrow> None
            | Some (g, post) \<Rightarrow> Some (c # g, post)))"

text \<open>
  \<^verbatim>\<open>re.search(Croo.RE_PATTERN_INLINE_EXP, result)\<close>: the leftmost start position at which
  the pattern matches. The match object is the triple of the text before the match,
  group 1, and the text after the match; \<^term>\<open>None\<close> is Python's \<^verbatim>\<open>None\<close>.
\<close>

type_synonym match = "string \<times> string \<times> string"

fun re_search :: "string \<Rightarrow> match option" where
  "re_search [] = None"
| "re_search (c # cs) =
     (case (if c = CHR ''$''
            then (case cs of
                    [] \<Rightarrow> None
                  | d # ds \<Rightarrow> (if d = CHR ''{'' then lazy_group ds else None))
            else None) of
        Some (g, post) \<Rightarrow> Some ([], g, post)
      | None \<Rightarrow>
          (case re_search cs of
             None \<Rightarrow> None
           | Some (pre, g, post) \<Rightarrow> Some (c # pre, g, post)))"

text \<open>\<^verbatim>\<open>m.group(0)\<close> and \<^verbatim>\<open>m.group(1)\<close>.\<close>

definition group0 :: "match \<Rightarrow> string" where
  "group0 m = (case m of (pre, g, post) \<Rightarrow> ''${'' @ g @ ''}'')"

definition group1 :: "match \<Rightarrow> string" where
  "group1 m = (case m of (pre, g, post) \<Rightarrow> g)"

section \<open>The expression interpreter\<close>

text \<open>
  The local variables of \<^verbatim>\<open>__interpret_inline_exp\<close> that are assigned once, before the
  loop. The two others, \<^verbatim>\<open>result\<close> and \<^verbatim>\<open>m\<close>, change in the loop and are passed
  beside this record.
\<close>

record locals =
  l_s :: string
  l_full_path :: string
  l_shard_idx :: "int list"
  l_i :: "int option"
  l_j :: "int option"
  l_k :: "int option"
  l_basename :: string
  l_dirname :: string

text \<open>
  \<^verbatim>\<open>eval(m.group(1))\<close> runs Python's own evaluator in the scope of the function. What
  the source fixes is that scope: an expression that is exactly the name of a local
  variable evaluates to that variable. Everything else (names of the module or of the
  builtins, compound expressions, and the match object \<^verbatim>\<open>m\<close>, whose printed form
  depends on the interpreter) belongs to the Python implementation and is the parameter
  \<open>outer\<close>, which sees the same scope.
\<close>

type_synonym outer_eval = "locals \<Rightarrow> string \<Rightarrow> match \<Rightarrow> string \<Rightarrow> pyexn + pyval"

definition int_or_none :: "int option \<Rightarrow> pyval" where
  "int_or_none x = (case x of None \<Rightarrow> PNone | Some n \<Rightarrow> PInt n)"

definition local_lookup :: "locals \<Rightarrow> string \<Rightarrow> string \<Rightarrow> pyval option" where
  "local_lookup env result nm =
     (if nm = ''s'' then Some (PStr (l_s env))
      else if nm = ''full_path'' then Some (PStr (l_full_path env))
      else if nm = ''shard_idx'' then Some (PTuple (l_shard_idx env))
      else if nm = ''result'' then Some (PStr result)
      else if nm = ''i'' then Some (int_or_none (l_i env))
      else if nm = ''j'' then Some (int_or_none (l_j env))
      else if nm = ''k'' then Some (int_or_none (l_k env))
      else if nm = ''basename'' then Some (PStr (l_basename env))
      else if nm = ''dirname'' then Some (PStr (l_dirname env))
      else None)"

definition py_eval :: "outer_eval \<Rightarrow> locals \<Rightarrow> string \<Rightarrow> match \<Rightarrow> string \<Rightarrow> pyexn + pyval" where
  "py_eval outer env result m e =
     (case local_lookup env result e of
        Some v \<Rightarrow> Inr v
      | None \<Rightarrow> outer env result m e)"

text \<open>
  The \<^verbatim>\<open>while True\<close> loop. It returns \<open>Some (Inr result)\<close> at the \<^verbatim>\<open>break\<close>,
  \<open>Some (Inl e)\<close> when the evaluation raises \<open>e\<close>, and is \<^term>\<open>None\<close> when it never stops.
\<close>

partial_function (option) interpret_loop ::
  "outer_eval \<Rightarrow> locals \<Rightarrow> string \<Rightarrow> (pyexn + string) option"
where
  "interpret_loop outer env result =
     (case re_search result of
        None \<Rightarrow> Some (Inr result)
      | Some m \<Rightarrow>
          (case py_eval outer env result m (group1 m) of
             Inl e \<Rightarrow> Some (Inl e)
           | Inr v \<Rightarrow>
               interpret_loop outer env (str_replace1 (group0 m) (py_str v) result)))"

declare interpret_loop.simps [code]

text \<open>
  The bindings of \<^verbatim>\<open>i\<close>, \<^verbatim>\<open>j\<close> and \<^verbatim>\<open>k\<close>: position 0 is read without a guard,
  positions 1 and 2 behind \<^verbatim>\<open>len(shard_idx) > 1\<close> and \<^verbatim>\<open>len(shard_idx) > 2\<close>.
\<close>

definition bind_i :: "int list \<Rightarrow> pyexn + int option" where
  "bind_i shard_idx =
     (case tuple_get shard_idx 0 of
        Inl e \<Rightarrow> Inl e
      | Inr x \<Rightarrow> if x > - 1 then map_sum id Some (tuple_get shard_idx 0) else Inr None)"

definition bind_nested :: "int list \<Rightarrow> nat \<Rightarrow> pyexn + int option" where
  "bind_nested shard_idx n =
     (if length shard_idx > n
      then (case tuple_get shard_idx n of
              Inl e \<Rightarrow> Inl e
            | Inr x \<Rightarrow> if x > - 1 then map_sum id Some (tuple_get shard_idx n) else Inr None)
      else Inr None)"

definition make_locals :: "string \<Rightarrow> string \<Rightarrow> int list \<Rightarrow> pyexn + locals" where
  "make_locals s full_path shard_idx =
     (case bind_i shard_idx of
        Inl e \<Rightarrow> Inl e
      | Inr i \<Rightarrow>
     (case bind_nested shard_idx 1 of
        Inl e \<Rightarrow> Inl e
      | Inr j \<Rightarrow>
     (case bind_nested shard_idx 2 of
        Inl e \<Rightarrow> Inl e
      | Inr k \<Rightarrow>
          Inr \<lparr> l_s = s, l_full_path = full_path, l_shard_idx = shard_idx,
                l_i = i, l_j = j, l_k = k,
                l_basename = os_path_basename full_path,
                l_dirname = os_path_dirname full_path \<rparr>)))"

text \<open>\<^verbatim>\<open>Croo.__interpret_inline_exp(s, full_path, shard_idx)\<close>.\<close>

definition interpret_inline_exp ::
  "outer_eval \<Rightarrow> string \<Rightarrow> string \<Rightarrow> int list \<Rightarrow> (pyexn + string) option"
where
  "interpret_inline_exp outer s full_path shard_idx =
     (case make_locals s full_path shard_idx of
        Inl e \<Rightarrow> Some (Inl e)
      | Inr env \<Rightarrow> interpret_loop outer env s)"

text \<open>
  An outer scope in which nothing is bound: every expression that is not the name of a
  local variable raises \<^verbatim>\<open>NameError\<close>. It serves the concrete runs below, whose
  expressions are names of local variables or names bound nowhere.
\<close>

definition nothing_outside :: outer_eval where
  "nothing_outside env result m e = Inl (NameError e)"

section \<open>The organizer\<close>

text \<open>
  The leaf of the output definition JSON (\<^verbatim>\<open>out_var.get('path')\<close>,
  \<^verbatim>\<open>out_var.get('table')\<close>, \<^verbatim>\<open>out_var.get('ucsc_track')\<close>, each \<^verbatim>\<open>None\<close> when the
  key is missing) and a node of the task graph.
\<close>

record out_var =
  ov_path :: "string option"
  ov_table :: "string option"
  ov_ucsc_track :: "string option"

record task =
  task_name :: string
  out_files :: "(string \<times> string) list"
  shard_idx :: "int list"

text \<open>
  The fields of the \<^verbatim>\<open>Croo\<close> object that \<^verbatim>\<open>organize_output\<close> reads. A Python
  \<^verbatim>\<open>dict\<close> is iterated in insertion order, so the output definition is an association
  list. \<^verbatim>\<open>get_nodes()\<close> yields pairs whose first component the loop discards; the model
  keeps the task records, in the order of the traversal.
\<close>

record croo =
  c_out_dir :: string
  c_soft_link :: bool
  c_out_def_json :: "(string \<times> (string \<times> out_var) list) list"
  c_task_graph :: "task list"

text \<open>
  What lies outside the repository: the rest of Python's evaluator, and the two methods
  of caper's \<^verbatim>\<open>CaperURI\<close> that the organizer calls. \<open>w_copy src target soft_link\<close> is the
  value returned by \<^verbatim>\<open>CaperURI(src).copy(target_uri=target, soft_link=soft_link)\<close>, and
  \<open>w_get_url uri\<close> the value of \<^verbatim>\<open>CaperURI(uri).get_url()\<close>, \<^term>\<open>None\<close> for \<^verbatim>\<open>None\<close>.
\<close>

record world =
  w_outer :: outer_eval
  w_copy :: "string \<Rightarrow> string \<Rightarrow> bool \<Rightarrow> string"
  w_get_url :: "string \<Rightarrow> string option"

text \<open>The calls that leave the organizer, in the order in which they are made.\<close>

datatype event =
    Copy string string bool
  | GetUrl string
  | AddToFileTable string "string option" string
  | AddToUcscTrack string string
  | SaveToFile

text \<open>
  A piece of the organizer either never returns, or raises an exception after some calls,
  or returns a value after some calls.
\<close>

datatype 'a outcome = Diverges | Raised pyexn "event list" | Done 'a "event list"

fun after :: "event list \<Rightarrow> 'a outcome \<Rightarrow> 'a outcome" where
  "after evs Diverges = Diverges"
| "after evs (Raised e evs') = Raised e (evs @ evs')"
| "after evs (Done a evs') = Done a (evs @ evs')"

fun and_then :: "'a outcome \<Rightarrow> ('a \<Rightarrow> 'b outcome) \<Rightarrow> 'b outcome" where
  "and_then Diverges f = Diverges"
| "and_then (Raised e evs) f = Raised e evs"
| "and_then (Done a evs) f = after evs (f a)"

definition interpreted :: "world \<Rightarrow> string \<Rightarrow> string \<Rightarrow> int list \<Rightarrow> string outcome" where
  "interpreted w s full_path shard =
     (case interpret_inline_exp (w_outer w) s full_path shard of
        None \<Rightarrow> Diverges
      | Some (Inl e) \<Rightarrow> Raised e []
      | Some (Inr v) \<Rightarrow> Done v [])"

text \<open>Lines 97 to 109: the target of the match.\<close>

definition target_of :: "world \<Rightarrow> croo \<Rightarrow> out_var \<Rightarrow> int list \<Rightarrow> string \<Rightarrow> string outcome" where
  "target_of w self ov shard full_path =
     (case ov_path ov of
        Some path \<Rightarrow>
          and_then (interpreted w path full_path shard) (\<lambda>interpreted_path.
            Done (w_copy w full_path (os_path_join (c_out_dir self) interpreted_path)
                    (c_soft_link self))
                 [Copy full_path (os_path_join (c_out_dir self) interpreted_path)
                    (c_soft_link self)])
      | None \<Rightarrow> Done full_path [])"

text \<open>Lines 114 to 120: the row of the file table.\<close>

definition table_step ::
  "world \<Rightarrow> out_var \<Rightarrow> int list \<Rightarrow> string \<Rightarrow> string \<Rightarrow> string option \<Rightarrow> unit outcome"
where
  "table_step w ov shard full_path target_uri target_url =
     (case ov_table ov of
        Some table_item \<Rightarrow>
          and_then (interpreted w table_item full_path shard) (\<lambda>interpreted_table_item.
            Done () [AddToFileTable target_uri target_url interpreted_table_item])
      | None \<Rightarrow> Done () [])"

text \<open>Lines 121 to 125: the track.\<close>

definition track_step ::
  "world \<Rightarrow> out_var \<Rightarrow> int list \<Rightarrow> string \<Rightarrow> string option \<Rightarrow> unit outcome"
where
  "track_step w ov shard full_path target_url =
     (case ov_ucsc_track ov of
        None \<Rightarrow> Done () []
      | Some ucsc_track \<Rightarrow>
          (case target_url of
             None \<Rightarrow> Done () []
           | Some url \<Rightarrow>
               and_then (interpreted w ucsc_track full_path shard) (\<lambda>interpreted_ucsc_track.
                 Done () [AddToUcscTrack url interpreted_ucsc_track])))"

text \<open>Lines 97 to 125: the body of the innermost loop, run for one matched file.\<close>

definition match_body :: "world \<Rightarrow> croo \<Rightarrow> out_var \<Rightarrow> int list \<Rightarrow> string \<Rightarrow> unit outcome" where
  "match_body w self ov shard full_path =
     and_then (target_of w self ov shard full_path) (\<lambda>target_uri.
     and_then (Done (w_get_url w target_uri) [GetUrl target_uri]) (\<lambda>target_url.
     and_then (table_step w ov shard full_path target_uri target_url) (\<lambda>_.
     track_step w ov shard full_path target_url)))"

text \<open>The four nested loops of \<^verbatim>\<open>organize_output\<close>, innermost first.\<close>

fun out_files_loop ::
  "world \<Rightarrow> croo \<Rightarrow> string \<Rightarrow> out_var \<Rightarrow> int list \<Rightarrow> (string \<times> string) list \<Rightarrow> unit outcome"
where
  "out_files_loop w self out_var_name ov shard [] = Done () []"
| "out_files_loop w self out_var_name ov shard ((k, full_path) # rest) =
     (if k \<noteq> out_var_name then out_files_loop w self out_var_name ov shard rest
      else and_then (match_body w self ov shard full_path)
             (\<lambda>_. out_files_loop w self out_var_name ov shard rest))"

fun tasks_loop ::
  "world \<Rightarrow> croo \<Rightarrow> string \<Rightarrow> string \<Rightarrow> out_var \<Rightarrow> task list \<Rightarrow> unit outcome"
where
  "tasks_loop w self tn out_var_name ov [] = Done () []"
| "tasks_loop w self tn out_var_name ov (t # rest) =
     (if tn \<noteq> task_name t then tasks_loop w self tn out_var_name ov rest
      else and_then (out_files_loop w self out_var_name ov (shard_idx t) (out_files t))
             (\<lambda>_. tasks_loop w self tn out_var_name ov rest))"

fun out_vars_loop ::
  "world \<Rightarrow> croo \<Rightarrow> string \<Rightarrow> (string \<times> out_var) list \<Rightarrow> unit outcome"
where
  "out_vars_loop w self tn [] = Done () []"
| "out_vars_loop w self tn ((out_var_name, ov) # rest) =
     and_then (tasks_loop w self tn out_var_name ov (c_task_graph self))
       (\<lambda>_. out_vars_loop w self tn rest)"

fun out_def_loop ::
  "world \<Rightarrow> croo \<Rightarrow> (string \<times> (string \<times> out_var) list) list \<Rightarrow> unit outcome"
where
  "out_def_loop w self [] = Done () []"
| "out_def_loop w self ((tn, out_vars) # rest) =
     and_then (out_vars_loop w self tn out_vars) (\<lambda>_. out_def_loop w self rest)"

text \<open>\<^verbatim>\<open>Croo.organize_output\<close>: the loops, then \<^verbatim>\<open>report.save_to_file()\<close>.\<close>

definition organize_output :: "world \<Rightarrow> croo \<Rightarrow> unit outcome" where
  "organize_output w self =
     and_then (out_def_loop w self (c_out_def_json self)) (\<lambda>_. Done () [SaveToFile])"

text \<open>
  A world for concrete runs on local files: \<^verbatim>\<open>copy\<close> returns the target it was given
  and no location has a URL.
\<close>

definition local_world :: world where
  "local_world =
     \<lparr> w_outer = nothing_outside, w_copy = (\<lambda>src target soft. target),
       w_get_url = (\<lambda>uri. None) \<rparr>"


text \<open>
  A run used for the concrete cases below: two output variables of the task \<^verbatim>\<open>align\<close>,
  one of them without \<^verbatim>\<open>path\<close>, an entry for a task \<^verbatim>\<open>qc\<close> that never ran, and two
  shards of \<^verbatim>\<open>align\<close>, the second of which lists the same output twice.
\<close>

definition bam_var :: out_var where
  "bam_var =
     \<lparr> ov_path = Some ''align/rep${i}/${basename}'', ov_table = Some ''BAM rep${i}'',
       ov_ucsc_track = Some ''track ${basename}'' \<rparr>"

definition log_var :: out_var where
  "log_var = \<lparr> ov_path = None, ov_table = Some ''log'', ov_ucsc_track = None \<rparr>"

definition html_var :: out_var where
  "html_var = \<lparr> ov_path = Some ''qc/${basename}'', ov_table = None, ov_ucsc_track = None \<rparr>"

definition align0 :: task where
  "align0 =
     \<lparr> task_name = ''align'',
       out_files = [(''bam'', ''/work/0/xyz.bam''), (''log'', ''/work/0/log.txt'')],
       shard_idx = [0, - 1, - 1] \<rparr>"

definition align1 :: task where
  "align1 =
     \<lparr> task_name = ''align'',
       out_files = [(''bam'', ''/work/1/xyz.bam''), (''bam'', ''/work/1/xyz.bam'')],
       shard_idx = [1, - 1, - 1] \<rparr>"

definition demo_croo :: croo where
  "demo_croo =
     \<lparr> c_out_dir = ''/out'', c_soft_link = True,
       c_out_def_json =
         [(''align'', [(''bam'', bam_var), (''log'', log_var)]), (''qc'', [(''html'', html_var)])],
       c_task_graph = [align0, align1] \<rparr>"

definition keep_croo :: croo where
  "keep_croo =
     \<lparr> c_out_dir = ''/out'', c_soft_link = True,
       c_out_def_json = [(''align'', [(''log'', log_var)])],
       c_task_graph = [align0] \<rparr>"

section \<open>Notions of the specification\<close>

text \<open>
  The locals that \<^verbatim>\<open>__interpret_inline_exp\<close> binds from a non-empty scatter index,
  written out.
\<close>

definition bound_locals :: "string \<Rightarrow> string \<Rightarrow> int list \<Rightarrow> locals" where
  "bound_locals s p shard =
     \<lparr> l_s = s, l_full_path = p, l_shard_idx = shard,
       l_i = (if shard ! 0 > - 1 then Some (shard ! 0) else None),
       l_j = (if length shard > 1 \<and> shard ! 1 > - 1 then Some (shard ! 1) else None),
       l_k = (if length shard > 2 \<and> shard ! 2 > - 1 then Some (shard ! 2) else None),
       l_basename = os_path_basename p,
       l_dirname = os_path_dirname p \<rparr>"

text \<open>The names that are local variables when \<^verbatim>\<open>eval\<close> runs, \<^verbatim>\<open>m\<close> apart.\<close>

definition local_names :: "string list" where
  "local_names =
     [''s'', ''full_path'', ''shard_idx'', ''result'', ''i'', ''j'', ''k'', ''basename'',
      ''dirname'']"

text \<open>
  The seven identifiers of the documentation string (the table of the specification), and
  the text that each one stands for: a scatter index prints as its decimal form when it
  is present and not negative, and as \<^verbatim>\<open>None\<close> otherwise.
\<close>

datatype ident = Id_i | Id_j | Id_k | Id_basename | Id_dirname | Id_full_path | Id_shard_idx

fun ident_name :: "ident \<Rightarrow> string" where
  "ident_name Id_i = ''i''"
| "ident_name Id_j = ''j''"
| "ident_name Id_k = ''k''"
| "ident_name Id_basename = ''basename''"
| "ident_name Id_dirname = ''dirname''"
| "ident_name Id_full_path = ''full_path''"
| "ident_name Id_shard_idx = ''shard_idx''"

definition index_text :: "int list \<Rightarrow> nat \<Rightarrow> string" where
  "index_text shard n =
     (if n < length shard \<and> shard ! n > - 1 then str_int (shard ! n) else ''None'')"

fun ident_text :: "string \<Rightarrow> int list \<Rightarrow> ident \<Rightarrow> string" where
  "ident_text p shard Id_i = index_text shard 0"
| "ident_text p shard Id_j = index_text shard 1"
| "ident_text p shard Id_k = index_text shard 2"
| "ident_text p shard Id_basename = os_path_basename p"
| "ident_text p shard Id_dirname = os_path_dirname p"
| "ident_text p shard Id_full_path = p"
| "ident_text p shard Id_shard_idx = str_tuple shard"

text \<open>The number that a string of decimal digits denotes.\<close>

definition decimal_value :: "string \<Rightarrow> nat" where
  "decimal_value t = foldl (\<lambda>a c. 10 * a + (of_char c - 48)) 0 t"

text \<open>
  A template seen as the specification describes it: literal text and placeholders that
  name an identifier of the table. \<open>render\<close> is the template string, \<open>expand\<close> the string
  in which every placeholder is replaced by its text. A segment is \<open>plain\<close> when the text
  it contributes to the result holds no dollar sign.
\<close>

datatype segment = Lit string | Placeholder ident

fun render :: "segment list \<Rightarrow> string" where
  "render [] = []"
| "render (Lit t # segs) = t @ render segs"
| "render (Placeholder x # segs) = ''${'' @ ident_name x @ ''}'' @ render segs"

fun expand :: "string \<Rightarrow> int list \<Rightarrow> segment list \<Rightarrow> string" where
  "expand p shard [] = []"
| "expand p shard (Lit t # segs) = t @ expand p shard segs"
| "expand p shard (Placeholder x # segs) = ident_text p shard x @ expand p shard segs"

fun plain :: "string \<Rightarrow> int list \<Rightarrow> segment \<Rightarrow> bool" where
  "plain p shard (Lit t) = (CHR ''$'' \<notin> set t)"
| "plain p shard (Placeholder x) = (CHR ''$'' \<notin> set (ident_text p shard x))"

text \<open>
  The matches in the order of the specification: the output definition in its declared
  order (task name, then output variable), then the task records in the order of the
  traversal, then the output list of the record.
\<close>

definition spec_matches ::
  "(string \<times> (string \<times> out_var) list) list \<Rightarrow> task list \<Rightarrow> (out_var \<times> task \<times> string) list"
where
  "spec_matches out_def tasks =
     [(ov, t, full_path).
        (tn, out_vars) \<leftarrow> out_def, (out_var_name, ov) \<leftarrow> out_vars,
        t \<leftarrow> tasks, task_name t = tn,
        (k, full_path) \<leftarrow> out_files t, k = out_var_name]"

text \<open>Running pieces one after the other, and the calls that an outcome made.\<close>

fun run_all :: "unit outcome list \<Rightarrow> unit outcome" where
  "run_all [] = Done () []"
| "run_all (x # xs) = and_then x (\<lambda>_. run_all xs)"

fun events_of :: "'a outcome \<Rightarrow> event list" where
  "events_of Diverges = []"
| "events_of (Raised e evs) = evs"
| "events_of (Done a evs) = evs"

fun copied_source :: "event \<Rightarrow> string list" where
  "copied_source (Copy src target soft) = [src]"
| "copied_source ev = []"

fun is_get_url :: "event \<Rightarrow> bool" where
  "is_get_url (GetUrl uri) = True"
| "is_get_url ev = False"


fun is_copy :: "event \<Rightarrow> bool" where
  "is_copy (Copy src target soft) = True"
| "is_copy ev = False"

section \<open>Facts about the pattern and the replacement\<close>

lemma lazy_group_hit:
  "CHR ''}'' \<notin> set g \<Longrightarrow> CHR 0x0A \<notin> set g \<Longrightarrow>
   lazy_group (g @ CHR ''}'' # post) = Some (g, post)"
  by (induction g) auto

lemma re_search_hit:
  "CHR ''$'' \<notin> set pre \<Longrightarrow> CHR ''}'' \<notin> set g \<Longrightarrow> CHR 0x0A \<notin> set g \<Longrightarrow>
   re_search (pre @ ''${'' @ g @ ''}'' @ post) = Some (pre, g, post)"
  by (induction pre) (auto simp: lazy_group_hit)

lemma re_search_none: "CHR ''$'' \<notin> set t \<Longrightarrow> re_search t = None"
  by (induction t) auto

lemma str_replace1_hit:
  "CHR ''$'' \<notin> set pre \<Longrightarrow>
   str_replace1 (''${'' @ g @ ''}'') new (pre @ ''${'' @ g @ ''}'' @ post) = pre @ new @ post"
  by (induction pre) auto

lemma digit_no_dollar: "n < 10 \<Longrightarrow> ''0123456789'' ! n \<noteq> CHR ''$''"
proof -
  assume "n < 10"
  then have "''0123456789'' ! n \<in> set ''0123456789''" by (intro nth_mem) simp
  then show ?thesis by auto
qed

lemma digits_of_no_dollar: "CHR ''$'' \<notin> set (digits_of n)"
proof (induction n rule: digits_of.induct)
  case (1 n)
  show ?case
  proof (cases "n < 10")
    case True
    then show ?thesis using digit_no_dollar [of n] by (subst digits_of.simps) auto
  next
    case False
    have "n mod 10 < 10" by simp
    then have "''0123456789'' ! (n mod 10) \<noteq> CHR ''$''" by (rule digit_no_dollar)
    with False 1 show ?thesis by (subst digits_of.simps) auto
  qed
qed

lemma below_ten:
  "(k::nat) < 10 \<Longrightarrow>
   k = 0 \<or> k = 1 \<or> k = 2 \<or> k = 3 \<or> k = 4 \<or> k = 5 \<or> k = 6 \<or> k = 7 \<or> k = 8 \<or> k = 9"
  by arith

lemma digit_value: "k < 10 \<Longrightarrow> of_char (''0123456789'' ! k) - 48 = (k::nat)"
proof -
  assume "k < 10"
  from below_ten [OF this] show ?thesis by (elim disjE) simp_all
qed

lemma decimal_value_digits_of: "decimal_value (digits_of n) = n"
proof (induction n rule: digits_of.induct)
  case (1 n)
  show ?case
  proof (cases "n < 10")
    case True
    then show ?thesis
      by (subst digits_of.simps) (simp add: decimal_value_def digit_value)
  next
    case False
    have "n mod 10 < 10" by simp
    from digit_value [OF this] 1 [OF False] False show ?thesis
      by (subst digits_of.simps) (simp add: decimal_value_def)
  qed
qed

lemma digits_are_digits: "set (digits_of n) \<subseteq> set ''0123456789''"
proof (induction n rule: digits_of.induct)
  case (1 n)
  have a: "k < 10 \<Longrightarrow> ''0123456789'' ! k \<in> set ''0123456789''" for k
    by (intro nth_mem) simp
  show ?case
  proof (cases "n < 10")
    case True
    with a [of n] show ?thesis by (subst digits_of.simps) simp
  next
    case False
    have "n mod 10 < 10" by simp
    from a [OF this] 1 [OF False] False show ?thesis
      by (subst digits_of.simps) simp
  qed
qed

lemma str_int_decimal:
  "0 \<le> n \<Longrightarrow> decimal_value (str_int n) = nat n \<and> set (str_int n) \<subseteq> set ''0123456789''"
  using digits_are_digits [of "nat n"] by (simp add: str_int_def decimal_value_digits_of)

lemma str_int_no_dollar: "CHR ''$'' \<notin> set (str_int n)"
  by (simp add: str_int_def digits_of_no_dollar)

lemma join_comma_no_dollar: "CHR ''$'' \<notin> set (join_comma xs)"
  by (induction xs rule: join_comma.induct) (simp_all add: str_int_no_dollar)

lemma str_tuple_no_dollar: "CHR ''$'' \<notin> set (str_tuple xs)"
  by (simp add: str_tuple_def str_int_no_dollar join_comma_no_dollar split: list.split)

lemma index_text_no_dollar: "CHR ''$'' \<notin> set (index_text shard n)"
  by (simp add: index_text_def str_int_no_dollar)

section \<open>Facts about the path functions\<close>

lemma basename_subset: "set (os_path_basename p) \<subseteq> set p"
  unfolding os_path_basename_def using set_takeWhileD by fastforce

lemma dirname_subset: "set (os_path_dirname p) \<subseteq> set p"
proof -
  have a: "set (dropWhile P (rev p)) \<subseteq> set p" for P
    using set_dropWhileD by fastforce
  have b: "set (dropWhile Q (rev (rev (dropWhile P (rev p))))) \<subseteq> set p" for P Q
    using set_dropWhileD a by fastforce
  show ?thesis unfolding os_path_dirname_def Let_def using a b by auto
qed

lemma basename_no_slash: "CHR ''/'' \<notin> set (os_path_basename p)"
  unfolding os_path_basename_def using set_takeWhileD by fastforce

lemma split_rev: "xs = rev (dropWhile P (rev xs)) @ rev (takeWhile P (rev xs))"
  by (metis rev_append rev_rev_ident takeWhile_dropWhile_id)

lemma dirname_basename:
  "\<exists>sl. set sl \<subseteq> {CHR ''/''} \<and> p = os_path_dirname p @ sl @ os_path_basename p"
proof -
  define h where "h = rev (dropWhile (\<lambda>c. c \<noteq> CHR ''/'') (rev p))"
  define d where "d = rev (dropWhile (\<lambda>c. c = CHR ''/'') (rev h))"
  define sl where "sl = rev (takeWhile (\<lambda>c. c = CHR ''/'') (rev h))"
  have ph: "p = h @ os_path_basename p"
    unfolding h_def os_path_basename_def by (rule split_rev)
  have hd: "h = d @ sl"
    unfolding d_def sl_def by (rule split_rev)
  have sls: "set sl \<subseteq> {CHR ''/''}"
    unfolding sl_def using set_takeWhileD by fastforce
  have dn: "os_path_dirname p =
      (if h \<noteq> [] \<and> h \<noteq> replicate (length h) CHR ''/'' then d else h)"
    by (simp only: os_path_dirname_def Let_def h_def d_def)
  show ?thesis
  proof (cases "h \<noteq> [] \<and> h \<noteq> replicate (length h) CHR ''/''")
    case True
    with dn have "os_path_dirname p = d" by simp
    with ph hd have "p = os_path_dirname p @ sl @ os_path_basename p"
      by (metis append.assoc)
    with sls show ?thesis by blast
  next
    case False
    with dn have "os_path_dirname p = h" by (simp del: replicate.simps)
    with ph have "p = os_path_dirname p @ [] @ os_path_basename p"
      by (metis append_Nil)
    then show ?thesis by (intro exI [of _ "[]"]) simp
  qed
qed

section \<open>Facts about the interpreter\<close>

lemma make_locals_nonempty:
  "shard \<noteq> [] \<Longrightarrow> make_locals s p shard = Inr (bound_locals s p shard)"
  by (cases shard) (simp_all add: make_locals_def bind_i_def bind_nested_def tuple_get_def
      bound_locals_def)

lemma make_locals_empty: "make_locals s p [] = Inl IndexError"
  by (simp add: make_locals_def bind_i_def tuple_get_def)

lemma interpret_inline_exp_nonempty:
  "shard \<noteq> [] \<Longrightarrow>
   interpret_inline_exp outer s p shard = interpret_loop outer (bound_locals s p shard) s"
  by (simp add: interpret_inline_exp_def make_locals_nonempty)

lemma interpret_loop_step:
  assumes "CHR ''$'' \<notin> set pre" "CHR ''}'' \<notin> set g" "CHR 0x0A \<notin> set g"
  shows "interpret_loop outer env (pre @ ''${'' @ g @ ''}'' @ post) =
     (case py_eval outer env (pre @ ''${'' @ g @ ''}'' @ post) (pre, g, post) g of
        Inl e \<Rightarrow> Some (Inl e)
      | Inr v \<Rightarrow> interpret_loop outer env (pre @ py_str v @ post))"
  by (subst interpret_loop.simps)
     (simp only: re_search_hit [OF assms] str_replace1_hit [OF assms(1)] group0_def group1_def
        option.case prod.case)

lemma interpret_loop_done:
  "re_search t = None \<Longrightarrow> interpret_loop outer env t = Some (Inr t)"
  by (subst interpret_loop.simps) simp

lemma ident_name_chars:
  "CHR ''}'' \<notin> set (ident_name x)" "CHR 0x0A \<notin> set (ident_name x)"
  by (cases x; simp)+

lemma py_eval_ident:
  "shard \<noteq> [] \<Longrightarrow>
   map_sum id py_str (py_eval outer (bound_locals s p shard) r m (ident_name x)) =
     Inr (ident_text p shard x)"
  by (cases x; cases shard)
     (simp_all add: py_eval_def local_lookup_def bound_locals_def int_or_none_def index_text_def)

lemma interpret_loop_ident:
  assumes "CHR ''$'' \<notin> set pre" "shard \<noteq> []"
  shows "interpret_loop outer (bound_locals s p shard)
           (pre @ ''${'' @ ident_name x @ ''}'' @ post) =
         interpret_loop outer (bound_locals s p shard) (pre @ ident_text p shard x @ post)"
proof -
  let ?r = "pre @ ''${'' @ ident_name x @ ''}'' @ post"
  let ?ev = "py_eval outer (bound_locals s p shard) ?r (pre, ident_name x, post) (ident_name x)"
  obtain v where v: "?ev = Inr v" and t: "py_str v = ident_text p shard x"
    using py_eval_ident [OF assms(2), of outer s p ?r "(pre, ident_name x, post)" x]
    by (cases ?ev) auto
  show ?thesis
    by (subst interpret_loop_step [OF assms(1) ident_name_chars]) (simp only: v t sum.case)
qed

lemma interpret_loop_segments:
  assumes "shard \<noteq> []"
  shows "CHR ''$'' \<notin> set pre \<Longrightarrow> \<forall>seg \<in> set segs. plain p shard seg \<Longrightarrow>
     interpret_loop outer (bound_locals s p shard) (pre @ render segs @ rest) =
     interpret_loop outer (bound_locals s p shard) (pre @ expand p shard segs @ rest)"
proof (induction segs arbitrary: pre)
  case Nil
  then show ?case by simp
next
  case (Cons seg segs)
  show ?case
  proof (cases seg)
    case (Lit t)
    with Cons.prems have "CHR ''$'' \<notin> set (pre @ t)" by simp
    from Cons.IH [OF this] Cons.prems(2) Lit show ?thesis by simp
  next
    case (Placeholder x)
    have "CHR ''$'' \<notin> set (pre @ ident_text p shard x)"
      using Cons.prems Placeholder by simp
    from Cons.IH [OF this] Cons.prems(2)
    have "interpret_loop outer (bound_locals s p shard)
            (pre @ ident_text p shard x @ render segs @ rest) =
          interpret_loop outer (bound_locals s p shard)
            (pre @ ident_text p shard x @ expand p shard segs @ rest)"
      by simp
    moreover have "interpret_loop outer (bound_locals s p shard)
            (pre @ ''${'' @ ident_name x @ ''}'' @ render segs @ rest) =
          interpret_loop outer (bound_locals s p shard)
            (pre @ ident_text p shard x @ render segs @ rest)"
      by (rule interpret_loop_ident [OF Cons.prems(1) assms])
    ultimately show ?thesis using Placeholder by simp
  qed
qed

lemma expand_no_dollar:
  "\<forall>seg \<in> set segs. plain p shard seg \<Longrightarrow> CHR ''$'' \<notin> set (expand p shard segs)"
proof (induction segs)
  case Nil
  then show ?case by simp
next
  case (Cons seg segs)
  then show ?case by (cases seg) auto
qed

lemma interpret_segments:
  assumes "shard \<noteq> []" "\<forall>seg \<in> set segs. plain p shard seg"
  shows "interpret_inline_exp outer (render segs) p shard = Some (Inr (expand p shard segs))"
proof -
  have "interpret_loop outer (bound_locals (render segs) p shard) ([] @ render segs @ []) =
        interpret_loop outer (bound_locals (render segs) p shard)
          ([] @ expand p shard segs @ [])"
    by (rule interpret_loop_segments [OF assms(1) _ assms(2)]) simp
  then show ?thesis
    using interpret_loop_done [OF re_search_none [OF expand_no_dollar [OF assms(2)]]]
    by (simp add: interpret_inline_exp_nonempty [OF assms(1)])
qed

lemma interpret_single:
  assumes "shard \<noteq> []" "re_search (ident_text p shard x) = None"
  shows "interpret_inline_exp outer (''${'' @ ident_name x @ ''}'') p shard =
         Some (Inr (ident_text p shard x))"
proof -
  have "interpret_loop outer (bound_locals (''${'' @ ident_name x @ ''}'') p shard)
          ([] @ ''${'' @ ident_name x @ ''}'' @ []) =
        interpret_loop outer (bound_locals (''${'' @ ident_name x @ ''}'') p shard)
          ([] @ ident_text p shard x @ [])"
    by (rule interpret_loop_ident [OF _ assms(1)]) simp
  then show ?thesis
    using interpret_loop_done [OF assms(2)]
    by (simp add: interpret_inline_exp_nonempty [OF assms(1)])
qed

lemma interpret_loop_result:
  "interpret_loop outer env r = Some y \<Longrightarrow> \<forall>t. y = Inr t \<longrightarrow> re_search t = None"
proof (erule interpret_loop.raw_induct [rotated])
  fix loop :: "outer_eval \<Rightarrow> locals \<Rightarrow> string \<Rightarrow> (pyexn + string) option"
    and outer env r y
  assume IH: "\<And>outer env r y. loop outer env r = Some y \<Longrightarrow>
     \<forall>t. y = Inr t \<longrightarrow> re_search t = None"
  assume st: "(case re_search r of
        None \<Rightarrow> Some (Inr r)
      | Some m \<Rightarrow>
          (case py_eval outer env r m (group1 m) of
             Inl e \<Rightarrow> Some (Inl e)
           | Inr v \<Rightarrow> loop outer env (str_replace1 (group0 m) (py_str v) r))) = Some y"
  show "\<forall>t. y = Inr t \<longrightarrow> re_search t = None"
  proof (cases "re_search r")
    case None
    with st show ?thesis by auto
  next
    case (Some m)
    show ?thesis
    proof (cases "py_eval outer env r m (group1 m)")
      case (Inl e)
      with Some st show ?thesis by auto
    next
      case (Inr v)
      with Some st have "loop outer env (str_replace1 (group0 m) (py_str v) r) = Some y"
        by simp
      then show ?thesis by (rule IH)
    qed
  qed
qed

lemma interpret_inline_exp_result:
  "interpret_inline_exp outer s p shard = Some (Inr t) \<Longrightarrow> re_search t = None"
  using interpret_loop_result [of outer _ s "Inr t"]
  by (auto simp: interpret_inline_exp_def split: sum.splits)

text \<open>
  A state of the loop that reproduces itself: the current result is one placeholder whose
  name is a local variable that holds that very placeholder. The loop does not return
  from it.
\<close>

lemma interpret_loop_fixed_state:
  "interpret_loop outer env r = Some y \<Longrightarrow>
     \<not> (\<exists>g. r = ''${'' @ g @ ''}'' \<and> CHR ''}'' \<notin> set g \<and> CHR 0x0A \<notin> set g \<and>
          local_lookup env r g = Some (PStr r))"
proof (erule interpret_loop.raw_induct [rotated])
  fix loop :: "outer_eval \<Rightarrow> locals \<Rightarrow> string \<Rightarrow> (pyexn + string) option"
    and outer env r y
  assume IH: "\<And>outer env r y. loop outer env r = Some y \<Longrightarrow>
     \<not> (\<exists>g. r = ''${'' @ g @ ''}'' \<and> CHR ''}'' \<notin> set g \<and> CHR 0x0A \<notin> set g \<and>
          local_lookup env r g = Some (PStr r))"
  assume st: "(case re_search r of
        None \<Rightarrow> Some (Inr r)
      | Some m \<Rightarrow>
          (case py_eval outer env r m (group1 m) of
             Inl e \<Rightarrow> Some (Inl e)
           | Inr v \<Rightarrow> loop outer env (str_replace1 (group0 m) (py_str v) r))) = Some y"
  show "\<not> (\<exists>g. r = ''${'' @ g @ ''}'' \<and> CHR ''}'' \<notin> set g \<and> CHR 0x0A \<notin> set g \<and>
          local_lookup env r g = Some (PStr r))"
  proof
    assume "\<exists>g. r = ''${'' @ g @ ''}'' \<and> CHR ''}'' \<notin> set g \<and> CHR 0x0A \<notin> set g \<and>
          local_lookup env r g = Some (PStr r)"
    then obtain g where r: "r = ''${'' @ g @ ''}''" and g: "CHR ''}'' \<notin> set g" "CHR 0x0A \<notin> set g"
      and l: "local_lookup env r g = Some (PStr r)" by blast
    have s: "re_search r = Some ([], g, [])"
      using re_search_hit [of "[]" g "[]"] g r by simp
    have e: "py_eval outer env r ([], g, []) g = Inr (PStr r)"
      using l by (simp add: py_eval_def)
    have rp: "str_replace1 (''${'' @ g @ ''}'') r r = r"
      using str_replace1_hit [of "[]" g r "[]"] r by simp
    have "loop outer env r = Some y"
      using st rp by (simp add: s e group0_def group1_def)
    from IH [OF this] r g l show False by blast
  qed
qed


lemma str_int_0: "str_int 0 = ''0''"
  unfolding str_int_def by (subst digits_of.simps) simp

lemma local_lookup_other: "g \<notin> set local_names \<Longrightarrow> local_lookup env r g = None"
  by (simp add: local_names_def local_lookup_def)

section \<open>The claims about the expression interpreter\<close>

text \<open>
  C1 (as the code has it). The claim says that \<^verbatim>\<open>${i}\<close> raises a resolution error when
  position 0 of the scatter index is -1, and likewise \<^verbatim>\<open>${j}\<close> and \<^verbatim>\<open>${k}\<close> when
  position 1 or 2 is absent or -1. The code binds the variable to \<^verbatim>\<open>None\<close> in these
  cases, and \<^verbatim>\<open>str(None)\<close> is substituted: for every file location, every outer scope
  and every non-empty scatter index, the result is the text \<^verbatim>\<open>None\<close>, and nothing is
  raised.
\<close>

theorem C1_unbound_index_prints_None:
  assumes "shard \<noteq> []"
  shows "(\<not> shard ! 0 > - 1 \<longrightarrow>
            interpret_inline_exp outer ''${i}'' p shard = Some (Inr ''None''))
       \<and> (\<not> (length shard > 1 \<and> shard ! 1 > - 1) \<longrightarrow>
            interpret_inline_exp outer ''${j}'' p shard = Some (Inr ''None''))
       \<and> (\<not> (length shard > 2 \<and> shard ! 2 > - 1) \<longrightarrow>
            interpret_inline_exp outer ''${k}'' p shard = Some (Inr ''None''))"
proof -
  have n: "re_search ''None'' = None" by simp
  have a: "interpret_inline_exp outer (''${'' @ ident_name x @ ''}'') p shard = Some (Inr ''None'')"
    if "ident_text p shard x = ''None''" for x
    using interpret_single [OF assms, of p x outer] n that by simp
  have "\<not> shard ! 0 > - 1 \<Longrightarrow> interpret_inline_exp outer ''${i}'' p shard = Some (Inr ''None'')"
    using a [of Id_i] by (simp add: index_text_def)
  moreover have "\<not> (length shard > 1 \<and> shard ! 1 > - 1) \<Longrightarrow>
      interpret_inline_exp outer ''${j}'' p shard = Some (Inr ''None'')"
    using a [of Id_j] by (auto simp: index_text_def)
  moreover have "\<not> (length shard > 2 \<and> shard ! 2 > - 1) \<Longrightarrow>
      interpret_inline_exp outer ''${k}'' p shard = Some (Inr ''None'')"
    using a [of Id_k] by (auto simp: index_text_def)
  ultimately show ?thesis by blast
qed

theorem C1_witness:
  "interpret_inline_exp nothing_outside ''${i}'' ''/work/xyz.bam'' [- 1] = Some (Inr ''None'')
   \<and> interpret_inline_exp nothing_outside ''${j}'' ''/work/xyz.bam'' [- 1] = Some (Inr ''None'')
   \<and> interpret_inline_exp nothing_outside ''${k}'' ''/work/xyz.bam'' [- 1] = Some (Inr ''None'')"
  using C1_unbound_index_prints_None [of "[- 1]" nothing_outside "''/work/xyz.bam''"] by simp

theorem C1_counterexample:
  "interpret_inline_exp nothing_outside ''${i}'' ''/work/xyz.bam'' [- 1, - 1, - 1] =
     Some (Inr ''None'')"
proof -
  have "re_search (ident_text ''/work/xyz.bam'' [- 1, - 1, - 1] Id_i) = None"
    by (simp add: index_text_def)
  from interpret_single [OF _ this, of nothing_outside] show ?thesis
    by (simp add: index_text_def)
qed

text \<open>
  C2 (as the code has it). The claim says that a placeholder naming an identifier outside
  the table of seven is always a resolution error. The expression goes to \<^verbatim>\<open>eval\<close>, which
  resolves every name in scope, so \<^verbatim>\<open>${s}\<close> is replaced by the template itself (and the
  loop then runs forever). What holds: a placeholder whose name is no local variable and
  on which the scopes outside raise makes the interpretation raise that error, once the
  table placeholders before it have been replaced by text without a dollar sign; the
  error is not passed over.
\<close>

theorem C2_unbound_name_raises:
  assumes "shard \<noteq> []" and "\<forall>seg \<in> set segs. plain p shard seg"
    and "g \<notin> set local_names" and "CHR ''}'' \<notin> set g" and "CHR 0x0A \<notin> set g"
    and "\<forall>r m. outer (bound_locals t p shard) r m g = Inl e"
    and "t = render segs @ ''${'' @ g @ ''}'' @ post"
  shows "interpret_inline_exp outer t p shard = Some (Inl e)"
proof -
  let ?env = "bound_locals t p shard"
  let ?x = "expand p shard segs"
  have "interpret_loop outer ?env ([] @ render segs @ ''${'' @ g @ ''}'' @ post) =
        interpret_loop outer ?env ([] @ ?x @ ''${'' @ g @ ''}'' @ post)"
    by (rule interpret_loop_segments [OF assms(1) _ assms(2)]) simp
  also have "\<dots> = interpret_loop outer ?env (?x @ ''${'' @ g @ ''}'' @ post)" by simp
  also have "\<dots> = Some (Inl e)"
    by (subst interpret_loop_step [OF expand_no_dollar [OF assms(2)] assms(4,5)])
       (simp add: py_eval_def local_lookup_other [OF assms(3)] assms(6))
  finally show ?thesis
    by (simp add: interpret_inline_exp_nonempty [OF assms(1)] assms(7))
qed

theorem C2_witness:
  "interpret_inline_exp nothing_outside ''a/${i}/${foo}/x'' ''/work/xyz.bam'' [0] =
     Some (Inl (NameError ''foo''))"
proof -
  let ?segs = "[Lit ''a/'', Placeholder Id_i, Lit ''/'']"
  have 1: "[0::int] \<noteq> []" by simp
  have 2: "\<forall>seg \<in> set ?segs. plain ''/work/xyz.bam'' [0] seg"
    by (simp add: index_text_no_dollar)
  have 3: "''foo'' \<notin> set local_names" by (simp add: local_names_def)
  have 4: "CHR ''}'' \<notin> set ''foo''" "CHR 0x0A \<notin> set ''foo''" by simp_all
  have 5: "\<forall>r m. nothing_outside (bound_locals ''a/${i}/${foo}/x'' ''/work/xyz.bam'' [0]) r m
      ''foo'' = Inl (NameError ''foo'')"
    by (simp add: nothing_outside_def)
  have 6: "''a/${i}/${foo}/x'' = render ?segs @ ''${'' @ ''foo'' @ ''}'' @ ''/x''" by simp
  show ?thesis
    by (rule C2_unbound_name_raises [where outer = nothing_outside and g = "''foo''"
          and post = "''/x''", OF 1 2 3 4 5 6])
qed

theorem C2_counterexample:
  "py_eval nothing_outside (bound_locals ''${s}'' ''/work/xyz.bam'' [0]) ''${s}''
      ([], ''s'', []) ''s'' = Inr (PStr ''${s}'')
   \<and> interpret_inline_exp nothing_outside ''${s}'' ''/work/xyz.bam'' [0] = None"
proof -
  let ?env = "bound_locals ''${s}'' ''/work/xyz.bam'' [0]"
  have l: "local_lookup ?env ''${s}'' ''s'' = Some (PStr ''${s}'')"
    by (simp add: local_lookup_def bound_locals_def)
  have "interpret_loop nothing_outside ?env ''${s}'' = None"
  proof (cases "interpret_loop nothing_outside ?env ''${s}''")
    case None
    then show ?thesis .
  next
    case (Some y)
    from interpret_loop_fixed_state [OF this] l show ?thesis by auto
  qed
  then show ?thesis
    using l by (simp add: interpret_inline_exp_nonempty py_eval_def)
qed

text \<open>
  C3 (as the code has it). The claim says that the loop terminates on every input and
  that the returned string holds no placeholder. The loop scans the whole result again
  after each replacement, so it runs forever when a value brings its own placeholder
  back: the template \<^verbatim>\<open>${basename}\<close> on a file named \<^verbatim>\<open>${basename}\<close>. What holds: a
  string that the interpreter returns holds no placeholder, on every input; and the
  interpreter does return, with every placeholder replaced by its text, on every template
  made of literal text and table placeholders whose literals and values hold no dollar
  sign.
\<close>

theorem C3_result_has_no_placeholder:
  "(interpret_inline_exp outer t p shard = Some (Inr r) \<longrightarrow> re_search r = None)
   \<and> (shard \<noteq> [] \<and> (\<forall>seg \<in> set segs. plain p shard seg) \<longrightarrow>
        interpret_inline_exp outer (render segs) p shard = Some (Inr (expand p shard segs))
        \<and> re_search (expand p shard segs) = None)"
  using interpret_inline_exp_result [of outer t p shard r]
    interpret_segments [of shard segs p outer]
    re_search_none [OF expand_no_dollar [of segs p shard]]
  by blast

theorem C3_witness:
  "interpret_inline_exp nothing_outside ''align/rep${i}/${basename}'' ''/work/xyz.bam''
      [0, - 1, - 1] = Some (Inr ''align/rep0/xyz.bam'')
   \<and> re_search ''align/rep0/xyz.bam'' = None"
  using C3_result_has_no_placeholder [of nothing_outside "''align/rep${i}/${basename}''"
      "''/work/xyz.bam''" "[0, - 1, - 1]" "''align/rep0/xyz.bam''"
      "[Lit ''align/rep'', Placeholder Id_i, Lit ''/'', Placeholder Id_basename]"]
  by (simp add: index_text_def str_int_0 os_path_basename_def)

theorem C3_counterexample:
  "interpret_inline_exp nothing_outside ''${basename}'' ''/x/${basename}'' [0] = None"
proof -
  let ?env = "bound_locals ''${basename}'' ''/x/${basename}'' [0]"
  have l: "local_lookup ?env ''${basename}'' ''basename'' = Some (PStr ''${basename}'')"
    by (simp add: local_lookup_def bound_locals_def os_path_basename_def)
  have "interpret_loop nothing_outside ?env ''${basename}'' = None"
  proof (cases "interpret_loop nothing_outside ?env ''${basename}''")
    case None
    then show ?thesis .
  next
    case (Some y)
    from interpret_loop_fixed_state [OF this] l show ?thesis by auto
  qed
  then show ?thesis by (simp add: interpret_inline_exp_nonempty)
qed

lemma str_int_3: "str_int 3 = ''3''"
  unfolding str_int_def by (subst digits_of.simps) simp

text \<open>
  C8 (as the code has it). The claim says that, for every file location and every scatter
  index with position 0 at least 0, \<^verbatim>\<open>${i}\<close> yields the decimal form of position 0,
  \<^verbatim>\<open>${basename}\<close> the final segment of the path, \<^verbatim>\<open>${full_path}\<close> the path verbatim and
  \<^verbatim>\<open>${dirname}\<close> all but the final segment. That holds for \<^verbatim>\<open>${i}\<close>. For the three
  others it holds when the substituted text holds no placeholder; a placeholder in it is
  interpreted in turn, so \<^verbatim>\<open>${full_path}\<close> on \<^verbatim>\<open>/x/${i}\<close> yields \<^verbatim>\<open>/x/0\<close>. The final
  segment is what follows the last slash: it holds no slash, and the path is the
  directory name, then slashes, then the final segment. The decimal form is a string of
  digits that denotes the index.
\<close>

theorem C8_identifier_values:
  assumes "shard \<noteq> []" and "shard ! 0 \<ge> 0"
  shows "interpret_inline_exp outer ''${i}'' p shard = Some (Inr (str_int (shard ! 0)))
     \<and> (re_search (os_path_basename p) = None \<longrightarrow>
          interpret_inline_exp outer ''${basename}'' p shard = Some (Inr (os_path_basename p)))
     \<and> (re_search p = None \<longrightarrow>
          interpret_inline_exp outer ''${full_path}'' p shard = Some (Inr p))
     \<and> (re_search (os_path_dirname p) = None \<longrightarrow>
          interpret_inline_exp outer ''${dirname}'' p shard = Some (Inr (os_path_dirname p)))
     \<and> CHR ''/'' \<notin> set (os_path_basename p)
     \<and> (\<exists>sl. set sl \<subseteq> {CHR ''/''} \<and> p = os_path_dirname p @ sl @ os_path_basename p)
     \<and> decimal_value (str_int (shard ! 0)) = nat (shard ! 0)
     \<and> set (str_int (shard ! 0)) \<subseteq> set ''0123456789''"
proof -
  have i: "ident_text p shard Id_i = str_int (shard ! 0)"
    using assms by (simp add: index_text_def)
  have "re_search (ident_text p shard Id_i) = None"
    unfolding i by (rule re_search_none [OF str_int_no_dollar])
  from interpret_single [OF assms(1) this, of outer]
  have "interpret_inline_exp outer ''${i}'' p shard = Some (Inr (str_int (shard ! 0)))"
    using i by simp
  moreover have "re_search (os_path_basename p) = None \<Longrightarrow>
      interpret_inline_exp outer ''${basename}'' p shard = Some (Inr (os_path_basename p))"
    using interpret_single [OF assms(1), of p Id_basename outer] by simp
  moreover have "re_search p = None \<Longrightarrow>
      interpret_inline_exp outer ''${full_path}'' p shard = Some (Inr p)"
    using interpret_single [OF assms(1), of p Id_full_path outer] by simp
  moreover have "re_search (os_path_dirname p) = None \<Longrightarrow>
      interpret_inline_exp outer ''${dirname}'' p shard = Some (Inr (os_path_dirname p))"
    using interpret_single [OF assms(1), of p Id_dirname outer] by simp
  ultimately show ?thesis
    using basename_no_slash [of p] dirname_basename [of p] str_int_decimal [OF assms(2)]
    by blast
qed

theorem C8_witness:
  "interpret_inline_exp nothing_outside ''${i}'' ''/work/xyz.bam'' [3, - 1, - 1] =
     Some (Inr ''3'')
   \<and> interpret_inline_exp nothing_outside ''${basename}'' ''/work/xyz.bam'' [3, - 1, - 1] =
     Some (Inr ''xyz.bam'')
   \<and> interpret_inline_exp nothing_outside ''${full_path}'' ''/work/xyz.bam'' [3, - 1, - 1] =
     Some (Inr ''/work/xyz.bam'')
   \<and> interpret_inline_exp nothing_outside ''${dirname}'' ''/work/xyz.bam'' [3, - 1, - 1] =
     Some (Inr ''/work'')"
proof -
  have b: "os_path_basename ''/work/xyz.bam'' = ''xyz.bam''" by code_simp
  have d: "os_path_dirname ''/work/xyz.bam'' = ''/work''" by code_simp
  have s: "re_search ''xyz.bam'' = None" "re_search ''/work/xyz.bam'' = None"
    "re_search ''/work'' = None" by simp_all
  have 1: "[3, - 1, - 1] \<noteq> ([]::int list)" by simp
  have 2: "[3, - 1, - 1] ! 0 \<ge> (0::int)" by simp
  from C8_identifier_values [OF 1 2, of nothing_outside "''/work/xyz.bam''"]
  show ?thesis unfolding b d using s by (simp add: str_int_3)
qed

theorem C8_counterexample:
  "interpret_inline_exp nothing_outside ''${full_path}'' ''/x/${i}'' [0] = Some (Inr ''/x/0'')
   \<and> ''/x/0'' \<noteq> ''/x/${i}''"
  by code_simp

text \<open>
  C10. A scatter index that is not empty is all the three bindings need: position 0 is
  read without a guard, positions 1 and 2 only when the length allows it, so no index of
  length 1 or more raises \<^verbatim>\<open>IndexError\<close>, and the interpretation goes on to the loop.
  The empty index is the one that raises.
\<close>

theorem C10_nonempty_index_suffices:
  "(shard \<noteq> [] \<longrightarrow>
      bind_i shard = Inr (if shard ! 0 > - 1 then Some (shard ! 0) else None)
      \<and> (\<forall>n. bind_nested shard n =
            Inr (if length shard > n \<and> shard ! n > - 1 then Some (shard ! n) else None))
      \<and> make_locals s p shard = Inr (bound_locals s p shard)
      \<and> interpret_inline_exp outer s p shard = interpret_loop outer (bound_locals s p shard) s)
   \<and> (shard = [] \<longrightarrow>
      bind_i shard = Inl IndexError
      \<and> interpret_inline_exp outer s p shard = Some (Inl IndexError))"
proof -
  have "bind_i shard = Inr (if shard ! 0 > - 1 then Some (shard ! 0) else None)"
    if "shard \<noteq> []"
    using that by (cases shard) (simp_all add: bind_i_def tuple_get_def)
  moreover have "bind_nested shard n =
      Inr (if length shard > n \<and> shard ! n > - 1 then Some (shard ! n) else None)" for n
    by (simp add: bind_nested_def tuple_get_def)
  moreover have "bind_i [] = Inl IndexError" by (simp add: bind_i_def tuple_get_def)
  moreover have "interpret_inline_exp outer s p [] = Some (Inl IndexError)"
    by (simp add: interpret_inline_exp_def make_locals_empty)
  ultimately show ?thesis
    using make_locals_nonempty [of shard s p] interpret_inline_exp_nonempty [of shard outer s p]
    by auto
qed

theorem C10_witness:
  "make_locals ''${j}'' ''/work/xyz.bam'' [7] = Inr (bound_locals ''${j}'' ''/work/xyz.bam'' [7])
   \<and> bind_nested [7] 1 = Inr None \<and> bind_nested [7, 8] 1 = Inr (Some 8)
   \<and> bind_nested [7, 8] 2 = Inr None
   \<and> interpret_inline_exp nothing_outside ''${j}'' ''/work/xyz.bam'' [] = Some (Inl IndexError)"
  using C10_nonempty_index_suffices [of "[7]" "''${j}''" "''/work/xyz.bam''" nothing_outside]
    C10_nonempty_index_suffices [of "[7, 8]" "''${j}''" "''/work/xyz.bam''" nothing_outside]
    C10_nonempty_index_suffices [of "[]" "''${j}''" "''/work/xyz.bam''" nothing_outside]
  by simp

section \<open>Facts about outcomes and the loops of the organizer\<close>

lemma after_Nil [simp]: "after [] x = x"
  by (cases x) auto

lemma after_after: "after a (after b x) = after (a @ b) x"
  by (cases x) auto

lemma and_then_after: "and_then (after evs x) f = after evs (and_then x f)"
  by (cases x) (auto simp: after_after)

lemma and_then_assoc: "and_then (and_then x f) g = and_then x (\<lambda>a. and_then (f a) g)"
  by (cases x) (auto simp: and_then_after)

lemma and_then_return: "and_then (Done a []) f = f a"
  by (simp add: after_Nil)

lemma and_then_unit: "and_then x (\<lambda>_. Done () []) = x"
  by (cases x) auto

lemma after_Done_iff: "after e1 x = Done b evs \<longleftrightarrow> (\<exists>e2. x = Done b e2 \<and> evs = e1 @ e2)"
  by (cases x) auto

lemma and_then_Done_iff:
  "and_then x f = Done b evs \<longleftrightarrow> (\<exists>a e1 e2. x = Done a e1 \<and> f a = Done b e2 \<and> evs = e1 @ e2)"
  by (cases x) (auto simp: after_Done_iff)

lemma run_all_append: "run_all (xs @ ys) = and_then (run_all xs) (\<lambda>_. run_all ys)"
  by (induction xs) (simp_all add: and_then_return and_then_assoc)

lemma run_all_Done:
  "run_all xs = Done u evs \<Longrightarrow>
     evs = concat (map events_of xs) \<and> (\<forall>x \<in> set xs. \<exists>e. x = Done () e)"
proof (induction xs arbitrary: evs)
  case Nil
  then show ?case by simp
next
  case (Cons x xs)
  from Cons.prems obtain e1 e2 where x: "x = Done () e1" and r: "run_all xs = Done u e2"
    and evs: "evs = e1 @ e2"
    by (auto simp: and_then_Done_iff)
  from Cons.IH [OF r] x evs show ?case by auto
qed

lemma out_files_loop_run_all:
  "out_files_loop w self vn ov shard fs =
     run_all (map (match_body w self ov shard) [fp. (k, fp) \<leftarrow> fs, k = vn])"
  by (induction fs) auto

lemma tasks_loop_run_all:
  "tasks_loop w self tn vn ov ts =
     run_all (map (\<lambda>(ov, t, fp). match_body w self ov (shard_idx t) fp)
       [(ov, t, fp). t \<leftarrow> ts, task_name t = tn, (k, fp) \<leftarrow> out_files t, k = vn])"
proof (induction ts)
  case Nil
  then show ?case by simp
next
  case (Cons t ts)
  have m: "map (\<lambda>(ov, t, fp). match_body w self ov (shard_idx t) fp)
             (concat (map (\<lambda>(k, fp). if k = vn then [(ov, t, fp)] else []) fs)) =
           map (match_body w self ov (shard_idx t)) [fp. (k, fp) \<leftarrow> fs, k = vn]" for fs
    by (induction fs) auto
  show ?case
  proof (cases "tn = task_name t")
    case True
    with Cons.IH show ?thesis
      by (simp add: run_all_append out_files_loop_run_all m)
  next
    case False
    with Cons.IH show ?thesis by simp
  qed
qed

lemma out_vars_loop_run_all:
  "out_vars_loop w self tn vars =
     run_all (map (\<lambda>(ov, t, fp). match_body w self ov (shard_idx t) fp)
       [(ov, t, fp). (vn, ov) \<leftarrow> vars, t \<leftarrow> c_task_graph self, task_name t = tn,
          (k, fp) \<leftarrow> out_files t, k = vn])"
proof (induction vars)
  case Nil
  then show ?case by simp
next
  case (Cons a vars)
  obtain vn ov where a: "a = (vn, ov)" by (cases a)
  show ?case
    using Cons.IH by (simp add: a run_all_append tasks_loop_run_all)
qed

lemma out_def_loop_run_all:
  "out_def_loop w self od =
     run_all (map (\<lambda>(ov, t, fp). match_body w self ov (shard_idx t) fp)
       (spec_matches od (c_task_graph self)))"
proof (induction od)
  case Nil
  then show ?case by (simp add: spec_matches_def)
next
  case (Cons a od)
  obtain tn vars where a: "a = (tn, vars)" by (cases a)
  show ?case
    using Cons.IH by (simp add: a spec_matches_def run_all_append out_vars_loop_run_all)
qed

lemma organize_output_run_all:
  "organize_output w self =
     and_then (run_all (map (\<lambda>(ov, t, fp). match_body w self ov (shard_idx t) fp)
                 (spec_matches (c_out_def_json self) (c_task_graph self))))
       (\<lambda>_. Done () [SaveToFile])"
  by (simp add: organize_output_def out_def_loop_run_all)

lemma organize_output_Done:
  assumes "organize_output w self = Done u evs"
  shows "evs = concat (map (\<lambda>(ov, t, fp). events_of (match_body w self ov (shard_idx t) fp))
                   (spec_matches (c_out_def_json self) (c_task_graph self))) @ [SaveToFile]"
    and "\<forall>(ov, t, fp) \<in> set (spec_matches (c_out_def_json self) (c_task_graph self)).
           \<exists>e. match_body w self ov (shard_idx t) fp = Done () e"
proof -
  let ?ms = "spec_matches (c_out_def_json self) (c_task_graph self)"
  let ?body = "\<lambda>(ov, t, fp). match_body w self ov (shard_idx t) fp"
  from assms obtain e1 where r: "run_all (map ?body ?ms) = Done () e1" and evs: "evs = e1 @ [SaveToFile]"
    by (auto simp: organize_output_run_all and_then_Done_iff)
  from run_all_Done [OF r]
  have c: "e1 = concat (map events_of (map ?body ?ms))"
    and d: "\<forall>x \<in> set (map ?body ?ms). \<exists>e. x = Done () e" by blast+
  have eq: "events_of \<circ> ?body =
      (\<lambda>(ov, t, fp). events_of (match_body w self ov (shard_idx t) fp))"
    by (auto simp: fun_eq_iff)
  from c evs show "evs = concat (map (\<lambda>(ov, t, fp).
      events_of (match_body w self ov (shard_idx t) fp)) ?ms) @ [SaveToFile]"
    by (simp add: eq)
  from d show "\<forall>(ov, t, fp) \<in> set ?ms. \<exists>e. match_body w self ov (shard_idx t) fp = Done () e"
    by auto
qed


lemma interpreted_Done_iff:
  "interpreted w s fp shard = Done v evs \<longleftrightarrow>
     interpret_inline_exp (w_outer w) s fp shard = Some (Inr v) \<and> evs = []"
  by (auto simp: interpreted_def split: option.splits sum.splits)

lemma target_of_Done:
  "target_of w self ov shard fp = Done tu ev \<longleftrightarrow>
     (ov_path ov = None \<and> tu = fp \<and> ev = []) \<or>
     (\<exists>path ip. ov_path ov = Some path \<and>
        interpret_inline_exp (w_outer w) path fp shard = Some (Inr ip) \<and>
        tu = w_copy w fp (os_path_join (c_out_dir self) ip) (c_soft_link self) \<and>
        ev = [Copy fp (os_path_join (c_out_dir self) ip) (c_soft_link self)])"
  by (cases "ov_path ov")
     (auto simp: target_of_def and_then_Done_iff interpreted_Done_iff)

lemma table_step_Done:
  "table_step w ov shard fp tu url = Done u ev \<longleftrightarrow>
     (ov_table ov = None \<and> ev = []) \<or>
     (\<exists>ti txt. ov_table ov = Some ti \<and>
        interpret_inline_exp (w_outer w) ti fp shard = Some (Inr txt) \<and>
        ev = [AddToFileTable tu url txt])"
  by (cases "ov_table ov")
     (auto simp: table_step_def and_then_Done_iff interpreted_Done_iff)

lemma track_step_Done:
  "track_step w ov shard fp url = Done u ev \<longleftrightarrow>
     ((ov_ucsc_track ov = None \<or> url = None) \<and> ev = []) \<or>
     (\<exists>tr loc txt. ov_ucsc_track ov = Some tr \<and> url = Some loc \<and>
        interpret_inline_exp (w_outer w) tr fp shard = Some (Inr txt) \<and>
        ev = [AddToUcscTrack loc txt])"
  by (cases "ov_ucsc_track ov"; cases url)
     (auto simp: track_step_def and_then_Done_iff interpreted_Done_iff)

lemma match_body_Done:
  "match_body w self ov shard fp = Done u evs \<longleftrightarrow>
     (\<exists>tu e1 e2 e3. target_of w self ov shard fp = Done tu e1 \<and>
        table_step w ov shard fp tu (w_get_url w tu) = Done () e2 \<and>
        track_step w ov shard fp (w_get_url w tu) = Done () e3 \<and>
        evs = e1 @ [GetUrl tu] @ e2 @ e3)"
  by (auto simp: match_body_def and_then_Done_iff after_Done_iff)

lemma match_body_counts:
  assumes "match_body w self ov shard fp = Done u evs"
  shows "length (filter is_get_url evs) = 1"
    and "concat (map copied_source evs) = (if ov_path ov = None then [] else [fp])"
proof -
  from assms obtain tu e1 e2 e3 where t: "target_of w self ov shard fp = Done tu e1"
    and b: "table_step w ov shard fp tu (w_get_url w tu) = Done () e2"
    and k: "track_step w ov shard fp (w_get_url w tu) = Done () e3"
    and evs: "evs = e1 @ [GetUrl tu] @ e2 @ e3"
    by (auto simp: match_body_Done)
  from t have 1: "filter is_get_url e1 = []"
    "concat (map copied_source e1) = (if ov_path ov = None then [] else [fp])"
    by (auto simp: target_of_Done)
  from b have 2: "filter is_get_url e2 = []" "concat (map copied_source e2) = []"
    by (auto simp: table_step_Done)
  from k have 3: "filter is_get_url e3 = []" "concat (map copied_source e3) = []"
    by (auto simp: track_step_Done)
  show "length (filter is_get_url evs) = 1" by (simp add: evs 1 2 3)
  show "concat (map copied_source evs) = (if ov_path ov = None then [] else [fp])"
    by (simp add: evs 1 2 3)
qed

lemma target_of_out_def:
  "target_of w (self\<lparr>c_out_def_json := d\<rparr>) ov shard fp = target_of w self ov shard fp"
  by (cases "ov_path ov") (simp_all add: target_of_def)

lemma match_body_out_def:
  "match_body w (self\<lparr>c_out_def_json := d\<rparr>) ov shard fp = match_body w self ov shard fp"
  by (simp add: match_body_def target_of_out_def)

lemma no_match_inner:
  "vn \<notin> fst ` set fs \<Longrightarrow>
   concat (map (\<lambda>(k, fp). if k = vn then [(ov, t, fp)] else []) fs) = []"
  by (induction fs) auto

lemma no_match_nil:
  "\<forall>t \<in> set ts. task_name t = tn \<longrightarrow> vn \<notin> fst ` set (out_files t) \<Longrightarrow>
   [(ov, t, fp). t \<leftarrow> ts, task_name t = tn, (k, fp) \<leftarrow> out_files t, k = vn] = []"
proof (induction ts)
  case Nil
  then show ?case by simp
next
  case (Cons t ts)
  from Cons.prems have r: "\<forall>t \<in> set ts. task_name t = tn \<longrightarrow> vn \<notin> fst ` set (out_files t)"
    by simp
  show ?case
  proof (cases "task_name t = tn")
    case True
    with Cons.prems have "vn \<notin> fst ` set (out_files t)" by simp
    from no_match_inner [OF this, of ov t] Cons.IH [OF r] True show ?thesis by simp
  next
    case False
    with Cons.IH [OF r] show ?thesis by simp
  qed
qed

lemma spec_matches_append:
  "spec_matches (a @ b) ts = spec_matches a ts @ spec_matches b ts"
  by (simp add: spec_matches_def)

lemma spec_matches_drop_entry:
  assumes "\<forall>t \<in> set ts. task_name t = tn \<longrightarrow> vn \<notin> fst ` set (out_files t)"
  shows "spec_matches (pre @ (tn, vs1 @ (vn, ov) # vs2) # post) ts =
         spec_matches (pre @ (tn, vs1 @ vs2) # post) ts"
  using no_match_nil [OF assms, of ov]
  by (simp add: spec_matches_def)

lemma demo_local:
  "organize_output local_world demo_croo = Done ()
   [Copy ''/work/0/xyz.bam'' ''/out/align/rep0/xyz.bam'' True,
    GetUrl ''/out/align/rep0/xyz.bam'',
    AddToFileTable ''/out/align/rep0/xyz.bam'' None ''BAM rep0'',
    Copy ''/work/1/xyz.bam'' ''/out/align/rep1/xyz.bam'' True,
    GetUrl ''/out/align/rep1/xyz.bam'',
    AddToFileTable ''/out/align/rep1/xyz.bam'' None ''BAM rep1'',
    Copy ''/work/1/xyz.bam'' ''/out/align/rep1/xyz.bam'' True,
    GetUrl ''/out/align/rep1/xyz.bam'',
    AddToFileTable ''/out/align/rep1/xyz.bam'' None ''BAM rep1'',
    GetUrl ''/work/0/log.txt'',
    AddToFileTable ''/work/0/log.txt'' None ''log'', SaveToFile]"
  by code_simp

lemma demo_matches:
  "spec_matches (c_out_def_json demo_croo) (c_task_graph demo_croo) =
     [(bam_var, align0, ''/work/0/xyz.bam''), (bam_var, align1, ''/work/1/xyz.bam''),
      (bam_var, align1, ''/work/1/xyz.bam''), (log_var, align0, ''/work/0/log.txt'')]"
  by code_simp


section \<open>The claims about the organizer\<close>

text \<open>
  C4. For a matched file, when \<^verbatim>\<open>path\<close> is present and its interpretation returns,
  the target handed to \<^verbatim>\<open>copy\<close> is \<^verbatim>\<open>os.path.join\<close> of the output directory and the
  interpreted path (an interpreted path that is absolute replaces the output directory,
  as \<^verbatim>\<open>os.path.join\<close> does); when \<^verbatim>\<open>path\<close> is absent nothing is copied and the target is
  the location of the file itself. A target is never obtained in another way.
\<close>

theorem C4_destination_candidate:
  "(ov_path ov = Some path \<and> interpret_inline_exp (w_outer w) path fp shard = Some (Inr ip) \<longrightarrow>
      target_of w self ov shard fp =
        Done (w_copy w fp (os_path_join (c_out_dir self) ip) (c_soft_link self))
             [Copy fp (os_path_join (c_out_dir self) ip) (c_soft_link self)])
   \<and> (ov_path ov = None \<longrightarrow> target_of w self ov shard fp = Done fp [])
   \<and> (target_of w self ov shard fp = Done tu ev \<longrightarrow>
        (ov_path ov = None \<and> tu = fp \<and> ev = []) \<or>
        (\<exists>path ip. ov_path ov = Some path \<and>
           interpret_inline_exp (w_outer w) path fp shard = Some (Inr ip) \<and>
           ev = [Copy fp (os_path_join (c_out_dir self) ip) (c_soft_link self)]))"
  using target_of_Done [of w self ov shard fp tu ev]
    target_of_Done [of w self ov shard fp
      "w_copy w fp (os_path_join (c_out_dir self) ip) (c_soft_link self)"
      "[Copy fp (os_path_join (c_out_dir self) ip) (c_soft_link self)]"]
    target_of_Done [of w self ov shard fp fp "[]"]
  by auto

lemma demo_path:
  "interpret_inline_exp (w_outer local_world) ''align/rep${i}/${basename}'' ''/work/0/xyz.bam''
     [0, - 1, - 1] = Some (Inr ''align/rep0/xyz.bam'')"
  by code_simp

theorem C4_witness:
  "target_of local_world demo_croo bam_var [0, - 1, - 1] ''/work/0/xyz.bam'' =
     Done ''/out/align/rep0/xyz.bam'' [Copy ''/work/0/xyz.bam'' ''/out/align/rep0/xyz.bam'' True]
   \<and> target_of local_world demo_croo log_var [0, - 1, - 1] ''/work/0/log.txt'' =
     Done ''/work/0/log.txt'' []"
proof -
  have j: "os_path_join (c_out_dir demo_croo) ''align/rep0/xyz.bam'' = ''/out/align/rep0/xyz.bam''"
    by code_simp
  have a: "ov_path bam_var = Some ''align/rep${i}/${basename}''"
    by (simp add: bam_var_def)
  have b: "ov_path log_var = None"
    by (simp add: log_var_def)
  have c: "c_soft_link demo_croo = True" "w_copy local_world = (\<lambda>src target soft. target)"
    by (simp_all add: demo_croo_def local_world_def)
  have "target_of local_world demo_croo bam_var [0, - 1, - 1] ''/work/0/xyz.bam'' =
      Done (w_copy local_world ''/work/0/xyz.bam''
              (os_path_join (c_out_dir demo_croo) ''align/rep0/xyz.bam'') (c_soft_link demo_croo))
        [Copy ''/work/0/xyz.bam'' (os_path_join (c_out_dir demo_croo) ''align/rep0/xyz.bam'')
           (c_soft_link demo_croo)]"
    using C4_destination_candidate [of bam_var "''align/rep${i}/${basename}''" local_world
      "''/work/0/xyz.bam''" "[0, - 1, - 1]" "''align/rep0/xyz.bam''" demo_croo] a demo_path
    by blast
  moreover have "target_of local_world demo_croo log_var [0, - 1, - 1] ''/work/0/log.txt'' =
      Done ''/work/0/log.txt'' []"
    using C4_destination_candidate [of log_var "[]" local_world "''/work/0/log.txt''"
      "[0, - 1, - 1]" "[]" demo_croo] b
    by blast
  ultimately show ?thesis by (simp only: j c)
qed


text \<open>
  C5. The calls of \<^verbatim>\<open>organize_output\<close> are the calls of the matches one after the
  other, in the order of the specification (output definition in declared order, then the
  task records in traversal order, then the output list of the record), followed by the
  saving of the report; so when the run completes, its calls are the concatenation, in
  that order, of the calls of each match.
\<close>

theorem C5_nested_loop_order:
  "organize_output w self =
     and_then (run_all (map (\<lambda>(ov, t, fp). match_body w self ov (shard_idx t) fp)
                 (spec_matches (c_out_def_json self) (c_task_graph self))))
       (\<lambda>_. Done () [SaveToFile])
   \<and> (organize_output w self = Done u evs \<longrightarrow>
        evs = concat (map (\<lambda>(ov, t, fp). events_of (match_body w self ov (shard_idx t) fp))
                     (spec_matches (c_out_def_json self) (c_task_graph self))) @ [SaveToFile])"
  using organize_output_run_all [of w self] organize_output_Done(1) [of w self u evs]
  by blast

theorem C5_witness:
  "concat (map (\<lambda>(ov, t, fp). events_of (match_body local_world demo_croo ov (shard_idx t) fp))
     [(bam_var, align0, ''/work/0/xyz.bam''), (bam_var, align1, ''/work/1/xyz.bam''),
      (bam_var, align1, ''/work/1/xyz.bam''), (log_var, align0, ''/work/0/log.txt'')])
     @ [SaveToFile] =
   [Copy ''/work/0/xyz.bam'' ''/out/align/rep0/xyz.bam'' True,
    GetUrl ''/out/align/rep0/xyz.bam'',
    AddToFileTable ''/out/align/rep0/xyz.bam'' None ''BAM rep0'',
    Copy ''/work/1/xyz.bam'' ''/out/align/rep1/xyz.bam'' True,
    GetUrl ''/out/align/rep1/xyz.bam'',
    AddToFileTable ''/out/align/rep1/xyz.bam'' None ''BAM rep1'',
    Copy ''/work/1/xyz.bam'' ''/out/align/rep1/xyz.bam'' True,
    GetUrl ''/out/align/rep1/xyz.bam'',
    AddToFileTable ''/out/align/rep1/xyz.bam'' None ''BAM rep1'',
    GetUrl ''/work/0/log.txt'',
    AddToFileTable ''/work/0/log.txt'' None ''log'', SaveToFile]"
  using C5_nested_loop_order [of local_world demo_croo "()", THEN conjunct2, rule_format,
      OF demo_local]
  by (simp only: demo_matches)





lemma counts_over_matches:
  "\<forall>(ov, t, fp) \<in> set ms. \<exists>e. match_body w self ov (shard_idx t) fp = Done () e \<Longrightarrow>
   length (filter is_get_url
     (concat (map (\<lambda>(ov, t, fp). events_of (match_body w self ov (shard_idx t) fp)) ms))) =
     length ms
   \<and> concat (map copied_source
     (concat (map (\<lambda>(ov, t, fp). events_of (match_body w self ov (shard_idx t) fp)) ms))) =
     [fp. (ov, t, fp) \<leftarrow> ms, ov_path ov \<noteq> None]"
proof (induction ms)
  case Nil
  then show ?case by simp
next
  case (Cons m ms)
  obtain ov t fp where m: "m = (ov, t, fp)" by (cases m)
  from Cons.prems m obtain e where e: "match_body w self ov (shard_idx t) fp = Done () e"
    by auto
  from Cons.prems have "\<forall>(ov, t, fp) \<in> set ms.
      \<exists>e. match_body w self ov (shard_idx t) fp = Done () e" by simp
  from Cons.IH [OF this] match_body_counts [OF e] show ?case
    by (simp add: m e)
qed

text \<open>
  C7 (as the code has it). The claim says that every match computes one target and asks
  for one placement. Every match computes one target (one call of \<^verbatim>\<open>get_url\<close> on it),
  but \<^verbatim>\<open>copy\<close> is called only when \<^verbatim>\<open>path\<close> is present: a match without \<^verbatim>\<open>path\<close>
  places nothing. What holds for a run that completes: the calls of \<^verbatim>\<open>get_url\<close> are as
  many as the matches, and the files copied are, in order and with repetitions, the
  files of the matches whose \<^verbatim>\<open>path\<close> is present; a file that matches twice is copied
  twice.
\<close>

theorem C7_one_target_per_match:
  "organize_output w self = Done u evs \<longrightarrow>
     length (filter is_get_url evs) =
       length (spec_matches (c_out_def_json self) (c_task_graph self))
     \<and> concat (map copied_source evs) =
       [fp. (ov, t, fp) \<leftarrow> spec_matches (c_out_def_json self) (c_task_graph self),
            ov_path ov \<noteq> None]"
proof
  assume a: "organize_output w self = Done u evs"
  from counts_over_matches [OF organize_output_Done(2) [OF a]] organize_output_Done(1) [OF a]
  show "length (filter is_get_url evs) =
       length (spec_matches (c_out_def_json self) (c_task_graph self))
     \<and> concat (map copied_source evs) =
       [fp. (ov, t, fp) \<leftarrow> spec_matches (c_out_def_json self) (c_task_graph self),
            ov_path ov \<noteq> None]"
    by simp
qed

theorem C7_witness:
  "length (filter is_get_url (events_of (organize_output local_world demo_croo))) = 4
   \<and> concat (map copied_source (events_of (organize_output local_world demo_croo))) =
       [''/work/0/xyz.bam'', ''/work/1/xyz.bam'', ''/work/1/xyz.bam'']"
proof -
  have p: "ov_path bam_var \<noteq> None" "ov_path log_var = None"
    by (simp_all add: bam_var_def log_var_def)
  from C7_one_target_per_match [of local_world demo_croo "()", rule_format, OF demo_local]
  show ?thesis
    unfolding demo_matches demo_local by (simp add: p)
qed

theorem C7_counterexample:
  "spec_matches (c_out_def_json keep_croo) (c_task_graph keep_croo) =
     [(log_var, align0, ''/work/0/log.txt'')]
   \<and> organize_output local_world keep_croo =
     Done () [GetUrl ''/work/0/log.txt'', AddToFileTable ''/work/0/log.txt'' None ''log'',
              SaveToFile]
   \<and> filter is_copy (events_of (organize_output local_world keep_croo)) = []"
  by code_simp

text \<open>
  C9. An entry of the output definition that matches no output of any task record makes
  no call and raises nothing: its scan of the task graph returns at once, and the whole
  run is the run of the output definition without that entry.
\<close>

theorem C9_no_match_is_no_error:
  assumes "\<forall>t \<in> set (c_task_graph self). task_name t = tn \<longrightarrow> vn \<notin> fst ` set (out_files t)"
  shows "tasks_loop w self tn vn ov (c_task_graph self) = Done () []
     \<and> (c_out_def_json self = pre @ (tn, vs1 @ (vn, ov) # vs2) # post \<longrightarrow>
          organize_output w self =
          organize_output w (self\<lparr>c_out_def_json := pre @ (tn, vs1 @ vs2) # post\<rparr>))"
proof -
  have "tasks_loop w self tn vn ov (c_task_graph self) = Done () []"
    unfolding tasks_loop_run_all no_match_nil [OF assms] by simp
  moreover have "organize_output w self =
      organize_output w (self\<lparr>c_out_def_json := pre @ (tn, vs1 @ vs2) # post\<rparr>)"
    if "c_out_def_json self = pre @ (tn, vs1 @ (vn, ov) # vs2) # post"
    unfolding organize_output_run_all match_body_out_def
    by (simp add: that spec_matches_drop_entry [OF assms])
  ultimately show ?thesis by blast
qed

theorem C9_witness:
  "tasks_loop local_world demo_croo ''qc'' ''html'' html_var (c_task_graph demo_croo) = Done () []
   \<and> organize_output local_world demo_croo =
     organize_output local_world
       (demo_croo\<lparr>c_out_def_json :=
          [(''align'', [(''bam'', bam_var), (''log'', log_var)]), (''qc'', [])]\<rparr>)"
proof -
  have 1: "\<forall>t \<in> set (c_task_graph demo_croo).
      task_name t = ''qc'' \<longrightarrow> ''html'' \<notin> fst ` set (out_files t)"
    by (simp add: demo_croo_def align0_def align1_def)
  have 2: "c_out_def_json demo_croo =
      [(''align'', [(''bam'', bam_var), (''log'', log_var)])] @
      (''qc'', [] @ (''html'', html_var) # []) # []"
    by (simp add: demo_croo_def)
  from C9_no_match_is_no_error [OF 1, of local_world html_var
      "[(''align'', [(''bam'', bam_var), (''log'', log_var)])]" "[]" "[]" "[]"] 2
  show ?thesis by simp
qed


end
